theory Spec2Isabelle
  imports Complex_Main "HOL-Library.Word" "HOL-Library.Log_Nat"
begin

section \<open>JavaScript strings\<close>

text \<open>
  A JavaScript string is a sequence of UTF-16 code units; \<open>length\<close> counts code units and
  a regular expression without the \<open>u\<close> flag works on code units.  ASCII literals are
  written through \<open>ascii\<close>.
\<close>

type_synonym jsstring = "16 word list"

definition ascii :: "string \<Rightarrow> jsstring" where
  "ascii s = map of_char s"

text \<open>
  The character class \<open>\s\<close> and the characters removed by \<open>String.prototype.trim\<close>
  are the same set: WhiteSpace (TAB, VT, FF, SP, NBSP, ZWNBSP and the category Zs) together
  with LineTerminator (LF, CR, LS, PS).
\<close>

definition isWhiteSpace :: "16 word \<Rightarrow> bool" where
  "isWhiteSpace c \<longleftrightarrow>
     c = 0x0009 \<or> c = 0x000A \<or> c = 0x000B \<or> c = 0x000C \<or> c = 0x000D \<or> c = 0x0020 \<or>
     c = 0x00A0 \<or> c = 0x1680 \<or> (0x2000 \<le> c \<and> c \<le> 0x200A) \<or>
     c = 0x2028 \<or> c = 0x2029 \<or> c = 0x202F \<or> c = 0x205F \<or> c = 0x3000 \<or> c = 0xFEFF"

definition trim :: "jsstring \<Rightarrow> jsstring" where
  "trim s = rev (dropWhile isWhiteSpace (rev (dropWhile isWhiteSpace s)))"

text \<open>
  \<open>s.split(/\s+/)\<close>: the scan of \<open>String.prototype.split\<close> with a separator that
  matches one maximal, non-empty run of white space.  \<open>cur\<close> is the piece collected since
  the last separator; the piece after the last separator is always pushed, so the empty
  string gives the one piece \<open>""\<close>.
\<close>

function split_whitespace :: "jsstring \<Rightarrow> jsstring \<Rightarrow> jsstring list" where
  "split_whitespace cur [] = [cur]"
| "split_whitespace cur (c # cs) =
     (if isWhiteSpace c then cur # split_whitespace [] (dropWhile isWhiteSpace cs)
      else split_whitespace (cur @ [c]) cs)"
  by pat_completeness auto
termination
  by (relation "measure (\<lambda>(cur, s). length s)")
     (auto simp: le_imp_less_Suc length_dropWhile_le)

section \<open>Tokenizer (utils/textProcessor: tokenizeText)\<close>

record WordToken =
  word :: jsstring
  originalIndex :: nat
  hasPunctuation :: bool

text \<open>\<open>/[.,;?!]$/.test(word)\<close>: the last code unit exists and is one of the five marks.\<close>

definition isPunctuation :: "16 word \<Rightarrow> bool" where
  "isPunctuation c \<longleftrightarrow> c = 0x2E \<or> c = 0x2C \<or> c = 0x3B \<or> c = 0x3F \<or> c = 0x21"

definition testPunctuation :: "jsstring \<Rightarrow> bool" where
  "testPunctuation w \<longleftrightarrow> w \<noteq> [] \<and> isPunctuation (last w)"

definition tokenizeText :: "jsstring \<Rightarrow> WordToken list" where
  "tokenizeText text =
     (let rawWords = split_whitespace [] (trim text)
      in map (\<lambda>(idx, w). \<lparr>word = w, originalIndex = idx, hasPunctuation = testPunctuation w\<rparr>)
             (enumerate 0 rawWords))"

section \<open>JavaScript numbers\<close>

text \<open>
  A JavaScript number is an IEEE 754 binary64 value.  The finite ones are rationals, and
  an arithmetic operation returns the exact result rounded to the nearest value with a
  53-bit significand, ties to the even significand.  \<open>round_double\<close> is that rounding
  for the normal range (overflow to infinity, subnormal numbers and NaN are outside the
  model).  Integers below \<open>2 ^ 53\<close> in magnitude are exact, so lengths, indices and
  millisecond timestamps are \<open>int\<close> or \<open>nat\<close> and their sums and differences are not
  rounded.
\<close>

definition roundTiesToEven :: "rat \<Rightarrow> int" where
  "roundTiesToEven x =
     (let f = \<lfloor>x\<rfloor>; d = x - of_int f
      in if d < 1/2 then f else if 1/2 < d then f + 1 else if even f then f else f + 1)"

text \<open>The binary exponent \<open>e\<close> of a positive rational: \<open>2 ^ e \<le> x < 2 ^ (e + 1)\<close>.\<close>

definition exponent :: "rat \<Rightarrow> int" where
  "exponent x =
     (let (a, b) = quotient_of x; e = bitlen a - bitlen b
      in if 2 powi e \<le> x then e else e - 1)"

definition round_double :: "rat \<Rightarrow> rat" where
  "round_double x =
     (let u = 2 powi (exponent \<bar>x\<bar> - 52) in of_int (roundTiesToEven (x / u)) * u)"

definition js_mul :: "rat \<Rightarrow> rat \<Rightarrow> rat" where
  "js_mul x y = round_double (x * y)"

definition js_div :: "rat \<Rightarrow> rat \<Rightarrow> rat" where
  "js_div x y = round_double (x / y)"

definition Math_ceil :: "rat \<Rightarrow> int" where
  "Math_ceil x = \<lceil>x\<rceil>"

definition Math_floor :: "rat \<Rightarrow> int" where
  "Math_floor x = \<lfloor>x\<rfloor>"

text \<open>\<open>Math.round\<close> rounds to the nearest integer, a tie towards plus infinity.\<close>

definition Math_round :: "rat \<Rightarrow> int" where
  "Math_round x = \<lfloor>x + 1/2\<rfloor>"

text \<open>
  Truthiness of a \<open>number | null\<close> reference, as \<open>if (ref.current)\<close> and
  \<open>ref.current ? a : b\<close> test it: \<open>null\<close> and \<open>0\<close> are falsy.
\<close>

definition truthy :: "int option \<Rightarrow> bool" where
  "truthy r = (case r of None \<Rightarrow> False | Some t \<Rightarrow> t \<noteq> 0)"

text \<open>\<open>Number.prototype.toString\<close> of an integer: its decimal digits, with a sign.\<close>

function digits :: "int \<Rightarrow> string" where
  "digits n = (if n < 10 then [char_of (48 + n)] else digits (n div 10) @ [char_of (48 + n mod 10)])"
  by pat_completeness auto
termination
  by (relation "measure nat") auto

definition toString :: "int \<Rightarrow> string" where
  "toString n = (if n < 0 then CHR ''-'' # digits (- n) else digits n)"

section \<open>Focal point (utils/textProcessor: getHighlightRange)\<close>

datatype HighlightMode = FIRST_LETTER | FIRST_TWO | FIRST_HALF | ORP_OPTIMAL | NONE

record HighlightRange =
  start :: int
  end_exclusive :: int
  alignIndex :: int

text \<open>
  The literal \<open>0.35\<close> is the double nearest to \<open>35/100\<close>, and \<open>len * 0.35\<close>,
  \<open>len / 2\<close> and \<open>(end - 1) / 2\<close> are double operations.  The function has no
  failure path: the \<open>switch\<close> covers the five modes and every branch returns a range.
\<close>

definition getHighlightRange :: "jsstring \<Rightarrow> HighlightMode \<Rightarrow> HighlightRange" where
  "getHighlightRange w mode =
     (let len = int (length w)
      in case mode of
           FIRST_LETTER \<Rightarrow> \<lparr>start = 0, end_exclusive = 1, alignIndex = 0\<rparr>
         | FIRST_TWO \<Rightarrow>
             (let e = min 2 len
              in \<lparr>start = 0, end_exclusive = e, alignIndex = (if e = 2 then 1 else 0)\<rparr>)
         | FIRST_HALF \<Rightarrow>
             (let e = Math_ceil (js_div (of_int len) 2)
              in \<lparr>start = 0, end_exclusive = e,
                    alignIndex = Math_floor (js_div (of_int (e - 1)) 2)\<rparr>)
         | ORP_OPTIMAL \<Rightarrow>
             (let orpIndex =
                    (if len \<le> 1 then 0
                     else Math_ceil (js_mul (of_int len) (round_double (35/100))) - 1)
              in \<lparr>start = orpIndex, end_exclusive = orpIndex + 1, alignIndex = orpIndex\<rparr>)
         | NONE \<Rightarrow>
             \<lparr>start = - 1, end_exclusive = - 1,
                alignIndex = Math_floor (js_div (of_int len) 2)\<rparr>)"

section \<open>Reader (components/Reader)\<close>

text \<open>
  The component's state hooks and refs, as one record.  \<open>Date.now()\<close> is a parameter
  \<open>now\<close> of every operation that reads the clock, in milliseconds.
\<close>

record ReaderState =
  index :: nat
  isPlaying :: bool
  wpm :: rat
  sessionStartTimeRef :: "int option"
  totalPauseDurationRef :: int
  pauseStartTimeRef :: "int option"
  timerRef :: "nat option"

text \<open>\<open>words[index] || { word: '', originalIndex: 0, hasPunctuation: false }\<close>\<close>

definition currentWordToken :: "WordToken list \<Rightarrow> nat \<Rightarrow> WordToken" where
  "currentWordToken words i =
     (if i < length words then words ! i
      else \<lparr>word = [], originalIndex = 0, hasPunctuation = False\<rparr>)"

text \<open>
  \<open>getDelay\<close> closes over the rate and the current token; they are its parameters here.
  The literals \<open>1.5\<close> and \<open>1.3\<close> are the doubles nearest to \<open>15/10\<close> and
  \<open>13/10\<close>.
\<close>

definition getDelay :: "rat \<Rightarrow> WordToken \<Rightarrow> rat" where
  "getDelay rate tok =
     (let baseDelay = js_div 60000 rate
      in if hasPunctuation tok then js_mul baseDelay (round_double (15/10))
         else if 10 < length (word tok) then js_mul baseDelay (round_double (13/10))
         else baseDelay)"

definition stopTimer :: "ReaderState \<Rightarrow> ReaderState" where
  "stopTimer st =
     (case timerRef st of
        None \<Rightarrow> st
      | Some h \<Rightarrow> if h \<noteq> 0 then st\<lparr>timerRef := None\<rparr> else st)"

text \<open>
  \<open>startReading\<close>: the state it leaves.  \<open>h\<close> is the handle that
  \<open>window.setTimeout\<close> returns for the advance it schedules.
\<close>

definition startReading :: "WordToken list \<Rightarrow> ReaderState \<Rightarrow> int \<Rightarrow> nat \<Rightarrow> ReaderState" where
  "startReading words st now h =
     (if length words \<le> index st then st
      else
        let st1 = st\<lparr>isPlaying := True\<rparr>;
            st2 = (if truthy (pauseStartTimeRef st1)
                   then st1\<lparr>totalPauseDurationRef :=
                              totalPauseDurationRef st1 + (now - the (pauseStartTimeRef st1)),
                            pauseStartTimeRef := None\<rparr>
                   else st1);
            st3 = (if \<not> truthy (sessionStartTimeRef st2)
                   then st2\<lparr>sessionStartTimeRef := Some now\<rparr>
                   else st2)
        in st3\<lparr>timerRef := Some h\<rparr>)"

definition pauseReading :: "ReaderState \<Rightarrow> int \<Rightarrow> ReaderState" where
  "pauseReading st now = (stopTimer (st\<lparr>isPlaying := False\<rparr>))\<lparr>pauseStartTimeRef := Some now\<rparr>"

text \<open>
  The effect on \<open>isPlaying\<close> that records a pause when the user toggles the play
  button: it runs after a render in which \<open>isPlaying\<close> changed.
\<close>

definition pauseEffect :: "ReaderState \<Rightarrow> int \<Rightarrow> ReaderState" where
  "pauseEffect st now =
     (if \<not> isPlaying st \<and> \<not> truthy (pauseStartTimeRef st) \<and> truthy (sessionStartTimeRef st)
      then st\<lparr>pauseStartTimeRef := Some now\<rparr>
      else st)"

text \<open>
  \<open>handleFinish\<close>: the state it leaves and the three arguments it passes to
  \<open>onFinish\<close> (words read, duration in seconds, rate).
\<close>

definition handleFinish :: "ReaderState \<Rightarrow> int \<Rightarrow> ReaderState \<times> (int \<times> rat \<times> rat)" where
  "handleFinish st now =
     (let st1 = stopTimer (st\<lparr>isPlaying := False\<rparr>);
          endTime = now;
          duration =
            (if truthy (sessionStartTimeRef st1)
             then js_div (of_int (endTime - the (sessionStartTimeRef st1)
                                    - totalPauseDurationRef st1)) 1000
             else 0)
      in (st1, (int (index st1) + 1, duration, wpm st1)))"

section \<open>Reader: the control path in use\<close>

text \<open>
  \<open>startReading\<close> and \<open>pauseReading\<close> have no call site in the component.  The play
  button and the space key call \<open>setIsPlaying\<close> with the negated value, \<open>handleFinish\<close>
  calls it with \<open>false\<close>, and the effects do the rest.  The hooks and refs start with
  the values below when the component mounts.
\<close>

definition mount :: "rat \<Rightarrow> ReaderState" where
  "mount initialWpm =
     \<lparr>index = 0, isPlaying = False, wpm = initialWpm, sessionStartTimeRef = None,
        totalPauseDurationRef = 0, pauseStartTimeRef = None, timerRef = None\<rparr>"

text \<open>
  The timer effect, run after a render in which one of its dependencies (\<open>index\<close>,
  \<open>isPlaying\<close>, \<open>getDelay\<close>) changed: the cleanup of its previous run stops the timer,
  then the body stops it again and schedules an advance when the reader is playing.
  \<open>h\<close> is the handle that \<open>window.setTimeout\<close> returns.
\<close>

definition timerEffect :: "ReaderState \<Rightarrow> nat \<Rightarrow> ReaderState" where
  "timerEffect st h =
     (let st1 = stopTimer st
      in if isPlaying st1 then (stopTimer st1)\<lparr>timerRef := Some h\<rparr> else st1)"

text \<open>
  The effects that depend on \<open>isPlaying\<close>, in the order the component declares them:
  the timer effect, then the effect that records a pause.
\<close>

definition renderEffects :: "ReaderState \<Rightarrow> int \<Rightarrow> nat \<Rightarrow> ReaderState" where
  "renderEffects st now h = pauseEffect (timerEffect st h) now"

text \<open>
  \<open>setIsPlaying(v)\<close> and the render it causes.  A state update that leaves the value as
  it is re-runs no effect; a change runs the effects that depend on \<open>isPlaying\<close>.
  Pausing is \<open>setIsPlaying(false)\<close>; the toggle is \<open>setIsPlaying(!isPlaying)\<close>.
\<close>

definition setIsPlaying :: "bool \<Rightarrow> ReaderState \<Rightarrow> int \<Rightarrow> nat \<Rightarrow> ReaderState" where
  "setIsPlaying v st now h =
     (if isPlaying st = v then st else renderEffects (st\<lparr>isPlaying := v\<rparr>) now h)"

text \<open>
  The states the component can be in.  Every write of the code in use is one of the
  rules: \<open>setIsPlaying\<close> (button, space key), \<open>setWpm\<close> (arrow keys, sliders),
  \<open>setIndex\<close> (seek keys and buttons, the advance of the timer), the effects and their
  cleanup, and \<open>handleFinish\<close>.  The rules for \<open>setWpm\<close> and \<open>setIndex\<close> allow any
  new value.
\<close>

inductive reachable :: "rat \<Rightarrow> ReaderState \<Rightarrow> bool" for initialWpm :: rat where
  mounted: "reachable initialWpm (mount initialWpm)"
| playing_set: "reachable initialWpm st \<Longrightarrow> reachable initialWpm (setIsPlaying v st now h)"
| rate_set: "reachable initialWpm st \<Longrightarrow> reachable initialWpm (st\<lparr>wpm := r\<rparr>)"
| index_set: "reachable initialWpm st \<Longrightarrow> reachable initialWpm (st\<lparr>index := i\<rparr>)"
| timer_run: "reachable initialWpm st \<Longrightarrow> reachable initialWpm (timerEffect st h)"
| timer_stopped: "reachable initialWpm st \<Longrightarrow> reachable initialWpm (stopTimer st)"
| effects_run: "reachable initialWpm st \<Longrightarrow> reachable initialWpm (renderEffects st now h)"
| finished: "reachable initialWpm st \<Longrightarrow> reachable initialWpm (fst (handleFinish st now))"

section \<open>Application (App)\<close>

datatype AppState = IDLE | READING | PAUSED | STATS

record ReadingSession =
  id_str :: string
  date :: int
  wordsRead :: int
  durationSeconds :: int
  sessionWpm :: rat

record ReadingStats =
  totalWords :: int
  totalTimeSeconds :: int
  sessions :: "ReadingSession list"

text \<open>
  The component's state, and the value stored under the statistics key of
  \<open>localStorage\<close> (the statistics that \<open>JSON.stringify\<close> wrote, or nothing yet).
\<close>

record AppModel =
  appState :: AppState
  stats :: ReadingStats
  lastWpm :: rat
  storage :: "ReadingStats option"

definition saveStats :: "AppModel \<Rightarrow> ReadingStats \<Rightarrow> AppModel" where
  "saveStats app newStats = app\<lparr>stats := newStats, storage := Some newStats\<rparr>"

text \<open>
  \<open>handleReadingFinish\<close>; \<open>now1\<close> and \<open>now2\<close> are the values of its two
  \<open>Date.now()\<close> calls.  \<open>stats\<close> is read from the render the handler was created in;
  \<open>setLastWpm\<close> and \<open>saveStats\<close> write different parts of the state.
\<close>

definition handleReadingFinish ::
  "AppModel \<Rightarrow> int \<Rightarrow> rat \<Rightarrow> rat \<Rightarrow> int \<Rightarrow> int \<Rightarrow> AppModel" where
  "handleReadingFinish app wordsRead' duration finalWpm now1 now2 =
     (let app1 = app\<lparr>lastWpm := finalWpm\<rparr>;
          app2 =
            (if 10 < duration \<or> 50 < wordsRead' then
               let newSession =
                     \<lparr>id_str = toString now1, date = now2, wordsRead = wordsRead',
                        durationSeconds = Math_round duration, sessionWpm = finalWpm\<rparr>;
                   newStats =
                     \<lparr>totalWords = totalWords (stats app) + wordsRead',
                        totalTimeSeconds = totalTimeSeconds (stats app) + Math_round duration,
                        sessions = sessions (stats app) @ [newSession]\<rparr>
               in saveStats app1 newStats
             else app1)
      in app2\<lparr>appState := STATS\<rparr>)"

section \<open>Properties of the tokenizer\<close>

lemma split_whitespace_nonempty: "split_whitespace cur s \<noteq> []"
  by (induction cur s rule: split_whitespace.induct) auto

lemma trim_all_space:
  assumes "\<forall>c\<in>set s. isWhiteSpace c"
  shows "trim s = []"
proof -
  from assms have d: "dropWhile isWhiteSpace s = []" by (rule iffD2 [OF dropWhile_eq_Nil_conv])
  show ?thesis unfolding trim_def d by simp
qed

lemma tokenizeText_all_space:
  assumes "\<forall>c\<in>set text. isWhiteSpace c"
  shows "tokenizeText text = [\<lparr>word = [], originalIndex = 0, hasPunctuation = False\<rparr>]"
  using trim_all_space [OF assms] by (simp add: tokenizeText_def testPunctuation_def)

lemma length_tokenizeText: "length (tokenizeText text) = length (split_whitespace [] (trim text))"
  by (simp add: tokenizeText_def)

text \<open>
  C10.  For every input string, the empty string and white-space-only strings included,
  \<open>tokenizeText\<close> returns at least one token; on a white-space-only input it returns
  exactly one token, whose text is empty, with \<open>originalIndex\<close> 0 and
  \<open>hasPunctuation\<close> false.
\<close>

theorem tokenizeText_at_least_one:
  "1 \<le> length (tokenizeText text) \<and>
   ((\<forall>c\<in>set text. isWhiteSpace c) \<longrightarrow>
      tokenizeText text = [\<lparr>word = [], originalIndex = 0, hasPunctuation = False\<rparr>])"
proof
  have "split_whitespace [] (trim text) \<noteq> []" by (rule split_whitespace_nonempty)
  then show "1 \<le> length (tokenizeText text)"
    by (cases "split_whitespace [] (trim text)") (simp_all add: length_tokenizeText)
next
  show "(\<forall>c\<in>set text. isWhiteSpace c) \<longrightarrow>
      tokenizeText text = [\<lparr>word = [], originalIndex = 0, hasPunctuation = False\<rparr>]"
    by (simp add: tokenizeText_all_space)
qed

theorem tokenizeText_at_least_one_witness:
  "isWhiteSpace 0x20 \<and> isWhiteSpace 0x09 \<and> isWhiteSpace 0x0A \<and>
   1 \<le> length (tokenizeText [0x20, 0x09, 0x0A]) \<and>
   tokenizeText [0x20, 0x09, 0x0A] = [\<lparr>word = [], originalIndex = 0, hasPunctuation = False\<rparr>]"
  using tokenizeText_at_least_one [of "[0x20, 0x09, 0x0A]"]
  by (simp add: isWhiteSpace_def)


lemma split_whitespace_pieces_nonempty:
  assumes "s = [] \<or> \<not> isWhiteSpace (last s)"
    and "cur \<noteq> [] \<or> (s \<noteq> [] \<and> \<not> isWhiteSpace (hd s))"
  shows "[] \<notin> set (split_whitespace cur s)"
  using assms
proof (induction cur s rule: split_whitespace.induct)
  case (1 cur)
  then show ?case by simp
next
  case (2 cur c cs)
  show ?case
  proof (cases "isWhiteSpace c")
    case True
    with "2.prems" have cur: "cur \<noteq> []" and cs: "cs \<noteq> []" and l: "\<not> isWhiteSpace (last cs)"
      by (auto split: if_splits)
    let ?r = "dropWhile isWhiteSpace cs"
    from cs l have r: "?r \<noteq> []"
      by (metis dropWhile_eq_Nil_conv last_in_set)
    then have h: "\<not> isWhiteSpace (hd ?r)" by (rule hd_dropWhile)
    obtain p where p: "cs = p @ ?r" by (metis takeWhile_dropWhile_id)
    with r have "last cs = last ?r" by (metis last_appendR)
    with l have "\<not> isWhiteSpace (last ?r)" by simp
    with r h True have "[] \<notin> set (split_whitespace [] ?r)"
      by (intro "2.IH"(1)) auto
    with cur True show ?thesis by simp
  next
    case False
    from "2.prems"(1) have "cs = [] \<or> \<not> isWhiteSpace (last cs)"
      by (auto split: if_splits)
    with False have "[] \<notin> set (split_whitespace (cur @ [c]) cs)"
      by (intro "2.IH"(2)) auto
    with False show ?thesis by simp
  qed
qed

lemma trim_not_all_space:
  assumes "\<exists>c\<in>set s. \<not> isWhiteSpace c"
  shows "trim s \<noteq> [] \<and> \<not> isWhiteSpace (hd (trim s)) \<and> \<not> isWhiteSpace (last (trim s))"
proof -
  let ?a = "dropWhile isWhiteSpace s"
  let ?b = "dropWhile isWhiteSpace (rev ?a)"
  from assms have a: "?a \<noteq> []" by (simp add: dropWhile_eq_Nil_conv)
  then have ha: "\<not> isWhiteSpace (hd ?a)" by (rule hd_dropWhile)
  from a ha have "\<exists>c\<in>set (rev ?a). \<not> isWhiteSpace c"
    by (metis hd_in_set set_rev)
  then have b: "?b \<noteq> []" by (simp add: dropWhile_eq_Nil_conv)
  then have hb: "\<not> isWhiteSpace (hd ?b)" by (rule hd_dropWhile)
  have t: "trim s = rev ?b" by (simp add: trim_def)
  from b have l: "last (trim s) = hd ?b" by (simp add: t last_rev)
  obtain q where q: "rev ?a = q @ ?b" by (metis takeWhile_dropWhile_id)
  then have "?a = rev ?b @ rev q" by (metis rev_append rev_rev_ident)
  with b have "hd ?a = hd (rev ?b)" by (metis hd_append2 rev_is_Nil_conv)
  with ha have "\<not> isWhiteSpace (hd (trim s))" by (simp add: t)
  with b hb l t show ?thesis by simp
qed

lemma tokenizeText_words: "map word (tokenizeText text) = split_whitespace [] (trim text)"
proof -
  have "map word (map (\<lambda>(idx, w). \<lparr>word = w, originalIndex = idx,
            hasPunctuation = testPunctuation w\<rparr>) (enumerate n xs)) = xs" for n xs
    by (induction xs arbitrary: n) simp_all
  then show ?thesis by (simp add: tokenizeText_def del: map_map)
qed


lemma hasPunctuation_of_token:
  assumes "t \<in> set (tokenizeText text)"
  shows "hasPunctuation t = testPunctuation (word t)"
  using assms by (auto simp: tokenizeText_def)

lemma tokenizeText_Hello_world:
  "tokenizeText (ascii ''Hello, world!'') =
     [\<lparr>word = ascii ''Hello,'', originalIndex = 0, hasPunctuation = True\<rparr>,
      \<lparr>word = ascii ''world!'', originalIndex = 1, hasPunctuation = True\<rparr>]"
  by (simp add: tokenizeText_def trim_def ascii_def isWhiteSpace_def testPunctuation_def
        isPunctuation_def)

text \<open>
  C3 (as stated, refuted).  The claim says that a white-space-only input makes the tokenizer
  fail or return the empty sequence, and that no returned token has empty text.  On the
  one-space string \<open>tokenizeText\<close> returns a sequence of one token, and that token's
  text is empty.
\<close>

theorem tokenizeText_blank_counterexample:
  "isWhiteSpace 0x20 \<and>
   tokenizeText [0x20] = [\<lparr>word = [], originalIndex = 0, hasPunctuation = False\<rparr>] \<and>
   tokenizeText [0x20] \<noteq> [] \<and>
   \<not> (\<forall>t\<in>set (tokenizeText [0x20]). word t \<noteq> [])"
  by (simp add: tokenizeText_def trim_def isWhiteSpace_def testPunctuation_def)

text \<open>
  C3 (amended).  On an input with no character other than white space \<open>tokenizeText\<close>
  does not fail and returns exactly one token, whose text is empty; on every input that
  holds at least one character other than white space, every returned token has non-empty
  text.
\<close>

theorem tokenizeText_nonempty_words:
  "((\<forall>c\<in>set text. isWhiteSpace c) \<longrightarrow>
      tokenizeText text = [\<lparr>word = [], originalIndex = 0, hasPunctuation = False\<rparr>]) \<and>
   ((\<exists>c\<in>set text. \<not> isWhiteSpace c) \<longrightarrow>
      (\<forall>t\<in>set (tokenizeText text). word t \<noteq> []))"
proof (intro conjI impI)
  assume "\<forall>c\<in>set text. isWhiteSpace c"
  then show "tokenizeText text = [\<lparr>word = [], originalIndex = 0, hasPunctuation = False\<rparr>]"
    by (rule tokenizeText_all_space)
next
  assume "\<exists>c\<in>set text. \<not> isWhiteSpace c"
  then have "trim text \<noteq> []" and "\<not> isWhiteSpace (hd (trim text))"
    and "\<not> isWhiteSpace (last (trim text))"
    using trim_not_all_space by blast+
  then have "[] \<notin> set (split_whitespace [] (trim text))"
    by (intro split_whitespace_pieces_nonempty) simp_all
  then have "[] \<notin> set (map word (tokenizeText text))"
    unfolding tokenizeText_words .
  then show "\<forall>t\<in>set (tokenizeText text). word t \<noteq> []"
    by (metis image_eqI list.set_map)
qed

theorem tokenizeText_nonempty_words_witness:
  "isWhiteSpace 0x20 \<and>
   tokenizeText [0x20] = [\<lparr>word = [], originalIndex = 0, hasPunctuation = False\<rparr>] \<and>
   \<not> isWhiteSpace 0x61 \<and>
   tokenizeText [0x20, 0x61, 0x20, 0x62] =
     [\<lparr>word = [0x61], originalIndex = 0, hasPunctuation = False\<rparr>,
      \<lparr>word = [0x62], originalIndex = 1, hasPunctuation = False\<rparr>] \<and>
   word (tokenizeText [0x20, 0x61, 0x20, 0x62] ! 0) \<noteq> [] \<and>
   word (tokenizeText [0x20, 0x61, 0x20, 0x62] ! 1) \<noteq> []"
  using tokenizeText_nonempty_words [of "[0x20]"]
    tokenizeText_nonempty_words [of "[0x20, 0x61, 0x20, 0x62]"]
  by (simp add: tokenizeText_def trim_def isWhiteSpace_def testPunctuation_def
        isPunctuation_def)

text \<open>
  C8.  For every token produced by \<open>tokenizeText\<close>, \<open>hasPunctuation\<close> is true if
  and only if the token's final character is one of \<open>. , ; ? !\<close>; tokenizing
  \<open>"Hello, world!"\<close> yields exactly the two tokens \<open>"Hello,"\<close> and \<open>"world!"\<close>,
  both flagged.
\<close>

theorem tokenizeText_hasPunctuation:
  "(\<forall>t\<in>set (tokenizeText text).
      hasPunctuation t \<longleftrightarrow> word t \<noteq> [] \<and> last (word t) \<in> set (ascii ''.,;?!'')) \<and>
   tokenizeText (ascii ''Hello, world!'') =
     [\<lparr>word = ascii ''Hello,'', originalIndex = 0, hasPunctuation = True\<rparr>,
      \<lparr>word = ascii ''world!'', originalIndex = 1, hasPunctuation = True\<rparr>]"
proof
  have "testPunctuation w \<longleftrightarrow> w \<noteq> [] \<and> last w \<in> set (ascii ''.,;?!'')" for w
    by (auto simp: testPunctuation_def isPunctuation_def ascii_def)
  then show "\<forall>t\<in>set (tokenizeText text).
      hasPunctuation t \<longleftrightarrow> word t \<noteq> [] \<and> last (word t) \<in> set (ascii ''.,;?!'')"
    by (simp add: hasPunctuation_of_token)
next
  show "tokenizeText (ascii ''Hello, world!'') =
     [\<lparr>word = ascii ''Hello,'', originalIndex = 0, hasPunctuation = True\<rparr>,
      \<lparr>word = ascii ''world!'', originalIndex = 1, hasPunctuation = True\<rparr>]"
    by (rule tokenizeText_Hello_world)
qed

theorem tokenizeText_hasPunctuation_witness:
  "tokenizeText (ascii ''so, it is'') =
     [\<lparr>word = ascii ''so,'', originalIndex = 0, hasPunctuation = True\<rparr>,
      \<lparr>word = ascii ''it'', originalIndex = 1, hasPunctuation = False\<rparr>,
      \<lparr>word = ascii ''is'', originalIndex = 2, hasPunctuation = False\<rparr>] \<and>
   last (ascii ''so,'') \<in> set (ascii ''.,;?!'') \<and>
   last (ascii ''it'') \<notin> set (ascii ''.,;?!'') \<and>
   last (ascii ''is'') \<notin> set (ascii ''.,;?!'')"
  using tokenizeText_hasPunctuation [of "ascii ''so, it is''"]
  by (simp add: tokenizeText_def trim_def ascii_def isWhiteSpace_def testPunctuation_def
        isPunctuation_def)

section \<open>Properties of the rounding\<close>

lemma bitlen_powi:
  assumes "0 < a"
  shows "2 powi (bitlen a - 1) \<le> (of_int a :: rat)" and "(of_int a :: rat) < 2 powi bitlen a"
proof -
  from assms have b1: "1 \<le> bitlen a" by (auto simp: bitlen_alt_def)
  from bitlen_bounds [OF assms]
  have lo: "2 ^ nat (bitlen a - 1) \<le> a" and hi: "a < 2 ^ nat (bitlen a)" by auto
  from lo have "(of_int (2 ^ nat (bitlen a - 1)) :: rat) \<le> of_int a" by (simp only: of_int_le_iff)
  then have "(2::rat) ^ nat (bitlen a - 1) \<le> of_int a" by simp
  with b1 show "2 powi (bitlen a - 1) \<le> (of_int a :: rat)" by (simp add: power_int_nonneg_exp)
  from hi have "(of_int a :: rat) < of_int (2 ^ nat (bitlen a))" by (simp only: of_int_less_iff)
  then have "(of_int a :: rat) < 2 ^ nat (bitlen a)" by simp
  with b1 show "(of_int a :: rat) < 2 powi bitlen a" by (simp add: power_int_nonneg_exp)
qed

lemma exponent_bounds:
  assumes "0 < x"
  shows "2 powi exponent x \<le> x" and "x < 2 powi (exponent x + 1)"
proof -
  obtain a b where q: "quotient_of x = (a, b)" by fastforce
  then have b: "0 < b" and x: "x = of_int a / of_int b"
    using quotient_of_denom_pos quotient_of_div by auto
  with assms have a: "0 < a" by (simp add: zero_less_divide_iff)
  define e where "e = bitlen a - bitlen b"
  have p: "(0::rat) < 2 powi k" for k by simp
  have "2 powi (bitlen a - 1) / 2 powi bitlen b \<le> (of_int a :: rat) / of_int b"
    using bitlen_powi(1) [OF a] bitlen_powi(2) [OF b] a b p
    by (intro frac_le) simp_all
  then have lower: "2 powi (e - 1) \<le> x"
    by (simp add: x e_def power_int_diff)
  have "(of_int a :: rat) / of_int b < 2 powi bitlen a / 2 powi (bitlen b - 1)"
    using bitlen_powi(2) [OF a] bitlen_powi(1) [OF b] a p
    by (intro frac_less) simp_all
  then have upper: "x < 2 powi (e + 1)"
    by (simp add: x e_def power_int_diff power_int_add)
  have ex: "exponent x = (if 2 powi e \<le> x then e else e - 1)"
    by (simp add: exponent_def q e_def)
  show "2 powi exponent x \<le> x" using lower by (simp add: ex)
  show "x < 2 powi (exponent x + 1)" using upper by (auto simp: ex)
qed

lemma roundTiesToEven_error: "\<bar>of_int (roundTiesToEven y) - y\<bar> \<le> 1/2"
proof -
  have "of_int \<lfloor>y\<rfloor> \<le> y" and "y < of_int \<lfloor>y\<rfloor> + 1" by linarith+
  then show ?thesis by (auto simp: roundTiesToEven_def Let_def)
qed

lemma roundTiesToEven_of_int [simp]: "roundTiesToEven (of_int n) = n"
  by (simp add: roundTiesToEven_def)

lemma roundTiesToEven_0 [simp]: "roundTiesToEven 0 = 0"
  using roundTiesToEven_of_int [of 0] by simp

lemma roundTiesToEven_le:
  assumes "y \<le> of_int n"
  shows "roundTiesToEven y \<le> n"
proof (cases "y = of_int \<lfloor>y\<rfloor>")
  case True
  then have "roundTiesToEven y = \<lfloor>y\<rfloor>" by (metis roundTiesToEven_of_int)
  with assms show ?thesis by (simp add: floor_le_iff)
next
  case False
  then have "of_int \<lfloor>y\<rfloor> < y" by (metis of_int_floor_le order_le_less)
  with assms have "\<lfloor>y\<rfloor> < n" by (metis less_le_trans of_int_less_iff)
  moreover have "roundTiesToEven y \<le> \<lfloor>y\<rfloor> + 1" by (simp add: roundTiesToEven_def Let_def)
  ultimately show ?thesis by simp
qed

lemma round_double_error:
  assumes "0 < x"
  shows "\<bar>round_double x - x\<bar> \<le> 2 powi (exponent x - 53)"
proof -
  define u :: rat where "u = 2 powi (exponent x - 52)"
  have u: "0 < u" by (simp add: u_def)
  from assms have r: "round_double x = of_int (roundTiesToEven (x / u)) * u"
    by (simp add: round_double_def u_def Let_def)
  have "round_double x - x = (of_int (roundTiesToEven (x / u)) - x / u) * u"
    using u by (simp add: r algebra_simps)
  then have "\<bar>round_double x - x\<bar> = \<bar>of_int (roundTiesToEven (x / u)) - x / u\<bar> * u"
    using u by (simp add: abs_mult)
  also have "\<dots> \<le> (1/2) * u"
    using u roundTiesToEven_error [of "x / u"] by (intro mult_right_mono) simp_all
  also have "\<dots> = 2 powi (exponent x - 53)"
    using power_int_add [of "2::rat" "exponent x - 53" 1] by (simp add: u_def)
  finally show ?thesis .
qed

lemma exponent_less:
  assumes "0 < x" and "x < 2 powi n"
  shows "exponent x < n"
proof (rule ccontr)
  assume "\<not> exponent x < n"
  then have "(2::rat) powi n \<le> 2 powi exponent x" by (intro power_int_increasing) simp_all
  with exponent_bounds(1) [OF assms(1)] assms(2) show False by simp
qed

lemma round_double_le_int:
  assumes "0 < x" and "x \<le> of_int T" and "x < 2 ^ 53"
  shows "round_double x \<le> of_int T"
proof -
  define u :: rat where "u = 2 powi (exponent x - 52)"
  define k where "k = nat (52 - exponent x)"
  have u: "0 < u" by (simp add: u_def)
  from assms(3) have "x < 2 powi 53" by simp
  with assms(1) have "exponent x < 53" by (rule exponent_less)
  then have ku: "u * 2 ^ k = 1"
    using power_int_add [of "2::rat" "exponent x - 52" "52 - exponent x"]
    by (simp add: u_def k_def power_int_nonneg_exp)
  then have inv: "1 / u = 2 ^ k" using u by (simp add: field_simps)
  from assms(1) have r: "round_double x = of_int (roundTiesToEven (x / u)) * u"
    by (simp add: round_double_def u_def Let_def)
  have "x / u \<le> of_int T / u" using assms(2) u by (simp add: divide_right_mono)
  also have "of_int T / u = of_int T * (1 / u)" by simp
  also have "\<dots> = of_int (T * 2 ^ k)" by (simp add: inv)
  finally have "roundTiesToEven (x / u) \<le> T * 2 ^ k" by (rule roundTiesToEven_le)
  then have "(of_int (roundTiesToEven (x / u)) :: rat) \<le> of_int (T * 2 ^ k)"
    by (simp only: of_int_le_iff)
  then have "of_int (roundTiesToEven (x / u)) * u \<le> of_int (T * 2 ^ k) * u"
    using u by (intro mult_right_mono) simp_all
  also have "\<dots> = of_int T" using ku by (simp add: mult.assoc mult.commute)
  finally show ?thesis by (simp add: r)
qed

lemma round_double_exact:
  assumes "x = of_int m * 2 powi k" and "\<bar>m\<bar> < 2 ^ 53"
  shows "round_double x = x"
proof (cases "m = 0")
  case True
  with assms show ?thesis by (simp add: round_double_def)
next
  case False
  define u :: rat where "u = 2 powi (exponent \<bar>x\<bar> - 52)"
  define j where "j = nat (k - (exponent \<bar>x\<bar> - 52))"
  have u: "0 < u" by (simp add: u_def)
  have ax: "\<bar>x\<bar> = of_int \<bar>m\<bar> * 2 powi k" by (simp add: assms(1) abs_mult)
  with False have pos: "0 < \<bar>x\<bar>" by (simp add: assms(1))
  from assms(2) have "(of_int \<bar>m\<bar> :: rat) < of_int (2 ^ 53)" by (simp only: of_int_less_iff)
  then have "(of_int \<bar>m\<bar> :: rat) * 2 powi k < 2 ^ 53 * 2 powi k"
    by (intro mult_strict_right_mono) simp_all
  also have "\<dots> = 2 powi (53 + k)"
    using power_int_add [of "2::rat" 53 k] by simp
  finally have "\<bar>x\<bar> < 2 powi (53 + k)" by (simp add: ax)
  with pos have "exponent \<bar>x\<bar> < 53 + k" by (rule exponent_less)
  then have "2 powi k = u * 2 ^ j"
    using power_int_add [of "2::rat" "exponent \<bar>x\<bar> - 52" "k - (exponent \<bar>x\<bar> - 52)"]
    by (simp add: u_def j_def power_int_nonneg_exp)
  then have xu: "x = of_int (m * 2 ^ j) * u" by (simp add: assms(1) mult.assoc mult.commute)
  then have "x / u = of_int (m * 2 ^ j)" using u by simp
  then have "roundTiesToEven (x / u) = m * 2 ^ j" by (simp only: roundTiesToEven_of_int)
  then have "round_double x = of_int (m * 2 ^ j) * u" by (simp add: round_double_def u_def Let_def)
  with xu show ?thesis by simp
qed

lemma round_double_035: "round_double (35/100) = 6305039478318694 / 2 ^ 54"
  by code_simp

lemma orp_product:
  fixes len :: int
  assumes "2 \<le> len" and "len < 2 ^ 32"
  shows "\<lceil>round_double (of_int len * round_double (35/100))\<rceil> = \<lceil>of_int len * 35 / 100 :: rat\<rceil>"
proof -
  define x :: rat where "x = of_int len * (6305039478318694 / 2 ^ 54)"
  define T where "T = \<lceil>of_int len * 35 / 100 :: rat\<rceil>"
  from assms(1) have "(of_int 2 :: rat) \<le> of_int len" by (simp only: of_int_le_iff)
  then have l2: "(2::rat) \<le> of_int len" by simp
  from assms(2) have "(of_int len :: rat) < of_int (2 ^ 32)" by (simp only: of_int_less_iff)
  then have lb: "(of_int len :: rat) < 2 ^ 32" by simp
  have xpos: "0 < x" using l2 by (simp add: x_def)
  have xT: "x \<le> of_int T"
  proof -
    have "x \<le> of_int len * 35 / 100" using l2 by (simp add: x_def)
    also have "\<dots> \<le> of_int T" by (simp add: T_def)
    finally show ?thesis .
  qed
  have xsmall: "x < 2 ^ 53" using l2 lb by (simp add: x_def)
  have up: "round_double x \<le> of_int T" using xpos xT xsmall by (rule round_double_le_int)
  have "of_int T - 1 < (of_int len * 35 / 100 :: rat)" unfolding T_def by linarith
  then have "(of_int (20 * (T - 1)) :: rat) < of_int (7 * len)" by simp
  then have "20 * (T - 1) < 7 * len" by (simp only: of_int_less_iff)
  then have "20 * (T - 1) + 1 \<le> 7 * len" by simp
  then have "(of_int (20 * (T - 1) + 1) :: rat) \<le> of_int (7 * len)" by (simp only: of_int_le_iff)
  then have tl: "20 * (of_int T - 1) + 1 \<le> (7 * of_int len :: rat)" by simp
  have "(2::rat) powi exponent x \<le> x" using xpos by (rule exponent_bounds)
  moreover have "(2::rat) powi (exponent x - 53) = 2 powi exponent x / 2 ^ 53"
    using power_int_diff [of "2::rat" "exponent x" 53] by simp
  ultimately have err: "(2::rat) powi (exponent x - 53) \<le> x / 2 ^ 53"
    by (simp add: divide_right_mono)
  from round_double_error [OF xpos] err have "x - x / 2 ^ 53 \<le> round_double x" by linarith
  moreover have "of_int T - 1 < x - x / 2 ^ 53"
    using tl lb l2 by (simp add: x_def)
  ultimately have lo: "of_int T - 1 < round_double x" by simp
  from lo up have "\<lceil>round_double x\<rceil> = T" by (simp add: ceiling_eq_iff)
  then show ?thesis unfolding round_double_035 x_def T_def .
qed

lemma round_double_half:
  assumes "\<bar>n\<bar> < 2 ^ 53"
  shows "round_double (of_int n / 2) = of_int n / 2"
proof -
  have "(of_int n / 2 :: rat) = of_int n * 2 powi (- 1)" by (simp add: power_int_minus field_simps)
  then show ?thesis using assms by (rule round_double_exact)
qed

lemma roundTiesToEven_ge:
  assumes "of_int n \<le> y"
  shows "n \<le> roundTiesToEven y"
proof -
  from assms have "n \<le> \<lfloor>y\<rfloor>" by (simp add: le_floor_iff)
  moreover have "\<lfloor>y\<rfloor> \<le> roundTiesToEven y" by (simp add: roundTiesToEven_def Let_def)
  ultimately show ?thesis by simp
qed

lemma mantissa_bounds:
  assumes "0 < x"
  shows "2 ^ 52 \<le> x / 2 powi (exponent x - 52)" and "x / 2 powi (exponent x - 52) < 2 ^ 53"
proof -
  define u :: rat where "u = 2 powi (exponent x - 52)"
  have u: "0 < u" by (simp add: u_def)
  have lo: "2 powi exponent x = 2 ^ 52 * u"
    using power_int_add [of "2::rat" 52 "exponent x - 52"] by (simp add: u_def)
  have hi: "2 powi (exponent x + 1) = 2 ^ 53 * u"
    using power_int_add [of "2::rat" 53 "exponent x - 52"] by (simp add: u_def add.commute)
  from exponent_bounds(1) [OF assms] lo have "2 ^ 52 * u \<le> x" by simp
  with u show "2 ^ 52 \<le> x / 2 powi (exponent x - 52)"
    by (simp add: u_def [symmetric] pos_le_divide_eq)
  from exponent_bounds(2) [OF assms] hi have "x < 2 ^ 53 * u" by simp
  with u show "x / 2 powi (exponent x - 52) < 2 ^ 53"
    by (simp add: u_def [symmetric] pos_divide_less_eq)
qed

lemma round_double_nonneg_iff: "0 \<le> round_double x \<longleftrightarrow> 0 \<le> x"
proof -
  define u :: rat where "u = 2 powi (exponent \<bar>x\<bar> - 52)"
  have u: "0 < u" by (simp add: u_def)
  have r: "round_double x = of_int (roundTiesToEven (x / u)) * u"
    by (simp add: round_double_def u_def Let_def)
  show ?thesis
  proof (cases "0 \<le> x")
    case True
    with u have "of_int 0 \<le> x / u" by simp
    then have "0 \<le> roundTiesToEven (x / u)" by (rule roundTiesToEven_ge)
    with u True show ?thesis by (simp add: r)
  next
    case False
    then have "0 < \<bar>x\<bar>" and ax: "\<bar>x\<bar> = - x" by simp_all
    from mantissa_bounds(1) [OF this(1)] have "2 ^ 52 \<le> - x / u" by (simp add: u_def ax)
    then have "x / u \<le> of_int (- (2 ^ 52))" by simp
    then have "roundTiesToEven (x / u) \<le> - (2 ^ 52)" by (rule roundTiesToEven_le)
    then have "roundTiesToEven (x / u) < 0" by simp
    then have "(of_int (roundTiesToEven (x / u)) :: rat) < 0" by simp
    with u have "round_double x < 0" by (simp add: r mult_neg_pos)
    with False show ?thesis by simp
  qed
qed

lemma round_double_idem: "round_double (round_double x) = round_double x"
proof (cases "x = 0")
  case True
  then show ?thesis by (simp add: round_double_def)
next
  case False
  define e where "e = exponent \<bar>x\<bar>"
  define u :: rat where "u = 2 powi (e - 52)"
  define m where "m = roundTiesToEven (x / u)"
  have u: "0 < u" by (simp add: u_def)
  have r: "round_double x = of_int m * 2 powi (e - 52)"
    by (simp add: round_double_def u_def m_def e_def Let_def)
  from False have pos: "0 < \<bar>x\<bar>" by simp
  have lo: "2 ^ 52 \<le> \<bar>x\<bar> / u" and hi: "\<bar>x\<bar> / u < 2 ^ 53"
    using mantissa_bounds [OF pos] by (simp_all add: u_def e_def)
  have "\<bar>x / u\<bar> = \<bar>x\<bar> / u" using u by (simp only: abs_divide abs_of_pos)
  with hi have "\<bar>x / u\<bar> < 2 ^ 53" by (simp only:)
  then have "x / u \<le> 2 ^ 53" and "- (2 ^ 53) \<le> x / u" by linarith+
  then have b: "x / u \<le> of_int (2 ^ 53)" "of_int (- (2 ^ 53)) \<le> x / u" by simp_all
  have "m \<le> 2 ^ 53" unfolding m_def using b(1) by (rule roundTiesToEven_le)
  moreover have "- (2 ^ 53) \<le> m" unfolding m_def using b(2) by (rule roundTiesToEven_ge)
  ultimately have "m \<le> 2 ^ 53" and "- (2 ^ 53) \<le> m" by simp_all
  then consider "\<bar>m\<bar> < 2 ^ 53" | "m = 2 ^ 53" | "m = - (2 ^ 53)" by linarith
  then show ?thesis
  proof cases
    case 1
    with r show ?thesis by (rule round_double_exact)
  next
    case 2
    have "round_double x = of_int (2 ^ 52) * 2 powi (e - 51)"
      using power_int_add [of "2::rat" 1 "e - 52"] by (simp add: r 2)
    then show ?thesis by (rule round_double_exact) simp
  next
    case 3
    have "round_double x = of_int (- (2 ^ 52)) * 2 powi (e - 51)"
      using power_int_add [of "2::rat" 1 "e - 52"] by (simp add: r 3)
    then show ?thesis by (rule round_double_exact) simp
  qed
qed

text \<open>
  Known doubles: \<open>0.1\<close> is \<open>3602879701896397 / 2 ^ 55\<close>; \<open>3 * 0.35\<close> is just
  below \<open>1.05\<close>; \<open>20 * 0.35\<close> is a tie that rounds to \<open>7\<close>.
\<close>

lemma round_double_examples:
  "round_double (1/10) = 3602879701896397 / 2 ^ 55"
  "js_mul 3 (round_double (35/100)) = 4728779608739020 / 2 ^ 52"
  "js_mul 20 (round_double (35/100)) = 7"
  by code_simp+

lemma js_mul_one: "js_mul (js_div a b) 1 = js_div a b"
  by (simp add: js_mul_def js_div_def round_double_idem)

lemma round_double_15: "round_double (15/10) = 15/10"
  by code_simp

lemma round_double_13: "round_double (13/10) = 5854679515581645 / 2 ^ 52"
  by code_simp

section \<open>Properties of the focal point\<close>

lemma half_ceiling: "\<lceil>of_int n / 2 :: rat\<rceil> = (n + 1) div 2"
proof -
  have "\<lceil>of_int n / of_int 2 :: rat\<rceil> = - (- n div 2)" by (rule ceiling_divide_eq_div)
  also have "\<dots> = (n + 1) div 2" by presburger
  finally show ?thesis by simp
qed

lemma half_floor: "\<lfloor>of_int n / 2 :: rat\<rfloor> = n div 2"
  using floor_divide_of_int_eq [of n 2, where ?'a = rat] by simp

lemma getHighlightRange_FIRST_HALF:
  assumes "length w < 2 ^ 32"
  shows "getHighlightRange w FIRST_HALF =
     \<lparr>start = 0, end_exclusive = (int (length w) + 1) div 2,
        alignIndex = ((int (length w) + 1) div 2 - 1) div 2\<rparr>"
proof -
  define len where "len = int (length w)"
  define e where "e = (len + 1) div 2"
  from assms have l: "0 \<le> len" "len < 2 ^ 32" by (simp_all add: len_def)
  then have "\<bar>len\<bar> < 2 ^ 53" by simp
  then have h1: "js_div (of_int len) 2 = of_int len / 2"
    unfolding js_div_def by (rule round_double_half)
  have "0 \<le> e" "e < 2 ^ 32" using l by (simp_all add: e_def)
  then have "\<bar>e - 1\<bar> < 2 ^ 53" by simp
  then have h2: "js_div (of_int (e - 1)) 2 = of_int (e - 1) / 2"
    unfolding js_div_def by (rule round_double_half)
  have c: "Math_ceil (js_div (of_int len) 2) = e"
    by (simp only: h1 Math_ceil_def half_ceiling e_def)
  have f: "Math_floor (js_div (of_int (e - 1)) 2) = (e - 1) div 2"
    by (simp only: h2 Math_floor_def half_floor)
  show ?thesis
    unfolding getHighlightRange_def Let_def HighlightMode.case len_def [symmetric] c f
    by (simp add: e_def)
qed

lemma ORP_OPTIMAL_long:
  assumes "2 \<le> length w" and "length w < 2 ^ 32"
  shows "getHighlightRange w ORP_OPTIMAL =
     (let idx = \<lceil>of_nat (length w) * 35 / 100 :: rat\<rceil> - 1
      in \<lparr>start = idx, end_exclusive = idx + 1, alignIndex = idx\<rparr>)"
proof -
  from assms have "2 \<le> int (length w)" and "int (length w) < 2 ^ 32" by simp_all
  then have "\<lceil>round_double (of_int (int (length w)) * round_double (35/100))\<rceil> =
      \<lceil>of_int (int (length w)) * 35 / 100 :: rat\<rceil>"
    by (rule orp_product)
  with assms(1) show ?thesis
    by (simp add: getHighlightRange_def Let_def Math_ceil_def js_mul_def)
qed

lemma ORP_OPTIMAL_short:
  assumes "length w \<le> 1"
  shows "getHighlightRange w ORP_OPTIMAL = \<lparr>start = 0, end_exclusive = 1, alignIndex = 0\<rparr>"
  using assms by (simp add: getHighlightRange_def)

lemma getHighlightRange_apple:
  "getHighlightRange (ascii ''apple'') ORP_OPTIMAL = \<lparr>start = 1, end_exclusive = 2, alignIndex = 1\<rparr>"
  by code_simp

lemma orp_index_bounds:
  fixes len :: int
  assumes "2 \<le> len"
  shows "1 \<le> \<lceil>of_int len * 35 / 100 :: rat\<rceil>" and "\<lceil>of_int len * 35 / 100 :: rat\<rceil> \<le> len"
proof -
  from assms have "(of_int 2 :: rat) \<le> of_int len" by (simp only: of_int_le_iff)
  then have l: "(2::rat) \<le> of_int len" by simp
  then have "(0::rat) < of_int len * 35 / 100" by simp
  then have "0 < \<lceil>of_int len * 35 / 100 :: rat\<rceil>" by (simp only: ceiling_less_iff less_ceiling_iff of_int_0)
  then show "1 \<le> \<lceil>of_int len * 35 / 100 :: rat\<rceil>" by simp
  from l have "(of_int len * 35 / 100 :: rat) \<le> of_int len" by simp
  then show "\<lceil>of_int len * 35 / 100 :: rat\<rceil> \<le> len" by (rule ceiling_le)
qed

lemma half_index_bounds:
  fixes n :: int
  assumes "1 \<le> n"
  shows "0 \<le> ((n + 1) div 2 - 1) div 2" and "((n + 1) div 2 - 1) div 2 < n"
    and "(n + 1) div 2 \<le> n"
  using assms by presburger+

text \<open>
  C1.  For every word of length \<open>len \<ge> 2\<close>, \<open>getHighlightRange\<close> under
  \<open>ORP_OPTIMAL\<close> highlights exactly the character at \<open>idx = ceil(len * 0.35) - 1\<close>:
  \<open>start = idx\<close>, \<open>end = idx + 1\<close>, \<open>alignIndex = idx\<close>; for \<open>len \<le> 1\<close>
  the index is 0; for \<open>"apple"\<close> the result is \<open>{start: 1, end: 2, alignIndex: 1}\<close>.
  The right-hand side is the exact rational \<open>35/100\<close>; the code multiplies doubles, and
  the two agree for every length below \<open>2 ^ 32\<close>, a length that the strings of no
  JavaScript engine reach.
\<close>

theorem getHighlightRange_ORP:
  "(2 \<le> length w \<and> length w < 2 ^ 32 \<longrightarrow>
      getHighlightRange w ORP_OPTIMAL =
        (let idx = \<lceil>of_nat (length w) * 35 / 100 :: rat\<rceil> - 1
         in \<lparr>start = idx, end_exclusive = idx + 1, alignIndex = idx\<rparr>)) \<and>
   (length w \<le> 1 \<longrightarrow>
      getHighlightRange w ORP_OPTIMAL = \<lparr>start = 0, end_exclusive = 1, alignIndex = 0\<rparr>) \<and>
   getHighlightRange (ascii ''apple'') ORP_OPTIMAL =
     \<lparr>start = 1, end_exclusive = 2, alignIndex = 1\<rparr>"
  using ORP_OPTIMAL_long [of w] ORP_OPTIMAL_short [of w]
    getHighlightRange_apple
  by blast

theorem getHighlightRange_ORP_witness:
  "2 \<le> length (ascii ''reading'') \<and> length (ascii ''reading'') < 2 ^ 32 \<and>
   getHighlightRange (ascii ''reading'') ORP_OPTIMAL =
     \<lparr>start = 2, end_exclusive = 3, alignIndex = 2\<rparr> \<and>
   length (ascii ''a'') \<le> 1 \<and>
   getHighlightRange (ascii ''a'') ORP_OPTIMAL = \<lparr>start = 0, end_exclusive = 1, alignIndex = 0\<rparr>"
  using getHighlightRange_ORP [of "ascii ''reading''"] getHighlightRange_ORP [of "ascii ''a''"]
  by (simp add: ascii_def Let_def ceiling_eq_iff)

text \<open>
  C6.  For every non-empty word and every mode other than \<open>NONE\<close>, the range returned
  by \<open>getHighlightRange\<close> stays inside the word: \<open>0 \<le> alignIndex < len\<close>,
  \<open>0 \<le> start\<close> and \<open>end \<le> len\<close>; for the one-letter word \<open>"a"\<close> every such
  mode gives \<open>start = 0\<close>, \<open>end = 1\<close>, \<open>alignIndex = 0\<close>.
\<close>

theorem getHighlightRange_in_bounds:
  "(w \<noteq> [] \<and> length w < 2 ^ 32 \<and> mode \<noteq> NONE \<longrightarrow>
      0 \<le> alignIndex (getHighlightRange w mode) \<and>
      alignIndex (getHighlightRange w mode) < int (length w) \<and>
      0 \<le> start (getHighlightRange w mode) \<and>
      end_exclusive (getHighlightRange w mode) \<le> int (length w)) \<and>
   (mode \<noteq> NONE \<longrightarrow>
      start (getHighlightRange (ascii ''a'') mode) = 0 \<and>
      end_exclusive (getHighlightRange (ascii ''a'') mode) = 1 \<and>
      alignIndex (getHighlightRange (ascii ''a'') mode) = 0)"
proof (rule conjI; rule impI)
  assume a: "w \<noteq> [] \<and> length w < 2 ^ 32 \<and> mode \<noteq> NONE"
  then have len: "1 \<le> int (length w)" by (cases w) simp_all
  show "0 \<le> alignIndex (getHighlightRange w mode) \<and>
      alignIndex (getHighlightRange w mode) < int (length w) \<and>
      0 \<le> start (getHighlightRange w mode) \<and>
      end_exclusive (getHighlightRange w mode) \<le> int (length w)"
  proof (cases mode)
    case FIRST_LETTER
    with a show ?thesis by (simp add: getHighlightRange_def Suc_le_eq)
  next
    case FIRST_TWO
    with a len show ?thesis by (auto simp: getHighlightRange_def Let_def min_def)
  next
    case FIRST_HALF
    from a have "getHighlightRange w FIRST_HALF =
        \<lparr>start = 0, end_exclusive = (int (length w) + 1) div 2,
           alignIndex = ((int (length w) + 1) div 2 - 1) div 2\<rparr>"
      by (intro getHighlightRange_FIRST_HALF) simp
    with half_index_bounds [OF len] FIRST_HALF show ?thesis by simp
  next
    case ORP_OPTIMAL
    show ?thesis
    proof (cases "length w \<le> 1")
      case True
      with len ORP_OPTIMAL show ?thesis by (simp add: ORP_OPTIMAL_short)
    next
      case False
      then have l2: "2 \<le> length w" by simp
      then have "2 \<le> int (length w)" by simp
      from orp_index_bounds [OF this] l2 a ORP_OPTIMAL show ?thesis
        by (simp add: ORP_OPTIMAL_long Let_def)
    qed
  next
    case NONE
    with a show ?thesis by simp
  qed
next
  assume "mode \<noteq> NONE"
  then show "start (getHighlightRange (ascii ''a'') mode) = 0 \<and>
      end_exclusive (getHighlightRange (ascii ''a'') mode) = 1 \<and>
      alignIndex (getHighlightRange (ascii ''a'') mode) = 0"
    by (cases mode)
      (simp_all add: getHighlightRange_FIRST_HALF ORP_OPTIMAL_short ascii_def,
       simp_all add: getHighlightRange_def)
qed

theorem getHighlightRange_in_bounds_witness:
  "ascii ''a'' \<noteq> [] \<and> length (ascii ''a'') < 2 ^ 32 \<and> FIRST_HALF \<noteq> NONE \<and>
   getHighlightRange (ascii ''a'') FIRST_HALF = \<lparr>start = 0, end_exclusive = 1, alignIndex = 0\<rparr> \<and>
   0 \<le> alignIndex (getHighlightRange (ascii ''a'') FIRST_HALF) \<and>
   alignIndex (getHighlightRange (ascii ''a'') FIRST_HALF) < int (length (ascii ''a'')) \<and>
   0 \<le> start (getHighlightRange (ascii ''a'') FIRST_HALF) \<and>
   end_exclusive (getHighlightRange (ascii ''a'') FIRST_HALF) \<le> int (length (ascii ''a''))"
  using getHighlightRange_in_bounds [of "ascii ''a''" FIRST_HALF]
  by (simp add: ascii_def getHighlightRange_FIRST_HALF)

lemma FIRST_HALF_empty:
  "getHighlightRange [] FIRST_HALF = \<lparr>start = 0, end_exclusive = 0, alignIndex = - 1\<rparr>"
  by (simp add: getHighlightRange_FIRST_HALF)

lemma NONE_empty:
  "getHighlightRange [] NONE = \<lparr>start = - 1, end_exclusive = - 1, alignIndex = 0\<rparr>"
  by code_simp

text \<open>
  C7 (as stated, refuted).  The claim says that the empty word makes the calculator fail
  with an invalid-input error rather than return a range with an index outside the word.
  \<open>getHighlightRange\<close> returns a range for the empty word: under \<open>FIRST_HALF\<close> its
  \<open>alignIndex\<close> is \<open>-1\<close>, and under \<open>FIRST_LETTER\<close> its \<open>end\<close> is 1, beyond the
  length 0.
\<close>

theorem getHighlightRange_empty_counterexample:
  "getHighlightRange [] FIRST_HALF = \<lparr>start = 0, end_exclusive = 0, alignIndex = - 1\<rparr> \<and>
   alignIndex (getHighlightRange [] FIRST_HALF) < 0 \<and>
   getHighlightRange [] FIRST_LETTER = \<lparr>start = 0, end_exclusive = 1, alignIndex = 0\<rparr> \<and>
   int (length ([] :: jsstring)) < end_exclusive (getHighlightRange [] FIRST_LETTER)"
  by (simp add: FIRST_HALF_empty) (simp add: getHighlightRange_def)

text \<open>
  C7 (amended).  For the empty word \<open>getHighlightRange\<close> does not fail; it returns
  \<open>{0, 1, 0}\<close> under \<open>FIRST_LETTER\<close>, \<open>{0, 0, 0}\<close> under \<open>FIRST_TWO\<close>,
  \<open>{0, 0, -1}\<close> under \<open>FIRST_HALF\<close>, \<open>{0, 1, 0}\<close> under \<open>ORP_OPTIMAL\<close> and
  \<open>{-1, -1, 0}\<close> under \<open>NONE\<close> (start, end, alignIndex).
\<close>

theorem getHighlightRange_empty:
  "getHighlightRange [] FIRST_LETTER = \<lparr>start = 0, end_exclusive = 1, alignIndex = 0\<rparr> \<and>
   getHighlightRange [] FIRST_TWO = \<lparr>start = 0, end_exclusive = 0, alignIndex = 0\<rparr> \<and>
   getHighlightRange [] FIRST_HALF = \<lparr>start = 0, end_exclusive = 0, alignIndex = - 1\<rparr> \<and>
   getHighlightRange [] ORP_OPTIMAL = \<lparr>start = 0, end_exclusive = 1, alignIndex = 0\<rparr> \<and>
   getHighlightRange [] NONE = \<lparr>start = - 1, end_exclusive = - 1, alignIndex = 0\<rparr>"
  by (simp add: FIRST_HALF_empty NONE_empty)
     (simp add: getHighlightRange_def)

section \<open>Properties of the reader\<close>

text \<open>
  C2.  For every token and every rate, the delay is \<open>base = 60000 / wpm\<close> milliseconds
  multiplied by exactly one multiplier: \<open>1.5\<close> if the token has trailing punctuation,
  else \<open>1.3\<close> if the word is longer than 10 characters, else 1; punctuation takes
  precedence over length.  The division and the product are double operations; \<open>1.5\<close>
  is a double and \<open>1.3\<close> stands for the double nearest to it.
\<close>

theorem getDelay_multiplier:
  "getDelay rate tok =
     js_mul (js_div 60000 rate)
       (if hasPunctuation tok then 15/10
        else if 10 < length (word tok) then round_double (13/10)
        else 1)"
  unfolding getDelay_def Let_def round_double_15 by (simp add: js_mul_one)

lemma getDelay_example:
  "getDelay 300 \<lparr>word = ascii ''Hello,'', originalIndex = 0, hasPunctuation = True\<rparr> = 300"
  by code_simp

lemma stopTimer_fields [simp]:
  "index (stopTimer st) = index st"
  "isPlaying (stopTimer st) = isPlaying st"
  "wpm (stopTimer st) = wpm st"
  "sessionStartTimeRef (stopTimer st) = sessionStartTimeRef st"
  "totalPauseDurationRef (stopTimer st) = totalPauseDurationRef st"
  "pauseStartTimeRef (stopTimer st) = pauseStartTimeRef st"
  by (simp_all add: stopTimer_def split: option.splits)

lemma stopTimer_idem [simp]: "stopTimer (stopTimer st) = stopTimer st"
  by (simp add: stopTimer_def split: option.splits)

lemma handleFinish_args:
  "snd (handleFinish st now) =
     (int (index st) + 1,
      (if truthy (sessionStartTimeRef st)
       then js_div (of_int (now - the (sessionStartTimeRef st) - totalPauseDurationRef st)) 1000
       else 0),
      wpm st)"
  by (simp add: handleFinish_def Let_def)

lemma timerEffect_fields [simp]:
  "index (timerEffect st h) = index st"
  "isPlaying (timerEffect st h) = isPlaying st"
  "wpm (timerEffect st h) = wpm st"
  "sessionStartTimeRef (timerEffect st h) = sessionStartTimeRef st"
  "totalPauseDurationRef (timerEffect st h) = totalPauseDurationRef st"
  "pauseStartTimeRef (timerEffect st h) = pauseStartTimeRef st"
  by (simp_all add: timerEffect_def Let_def)

lemma pauseEffect_fields [simp]:
  "index (pauseEffect st now) = index st"
  "isPlaying (pauseEffect st now) = isPlaying st"
  "wpm (pauseEffect st now) = wpm st"
  "sessionStartTimeRef (pauseEffect st now) = sessionStartTimeRef st"
  "totalPauseDurationRef (pauseEffect st now) = totalPauseDurationRef st"
  "timerRef (pauseEffect st now) = timerRef st"
  by (simp_all add: pauseEffect_def)

lemma pauseEffect_unstarted:
  assumes "sessionStartTimeRef st = None"
  shows "pauseEffect st now = st"
  using assms by (simp add: pauseEffect_def truthy_def)

lemma handleFinish_state: "fst (handleFinish st now) = stopTimer (st\<lparr>isPlaying := False\<rparr>)"
  by (simp add: handleFinish_def Let_def)

text \<open>
  No code in use writes \<open>sessionStartTimeRef\<close> or \<open>totalPauseDurationRef\<close>, and the
  effect that writes \<open>pauseStartTimeRef\<close> waits for a session start: the three refs keep
  their initial values.
\<close>

lemma reachable_refs:
  assumes "reachable initialWpm st"
  shows "sessionStartTimeRef st = None \<and> totalPauseDurationRef st = 0 \<and>
         pauseStartTimeRef st = None"
  using assms
proof (induction rule: reachable.induct)
  case mounted
  show ?case by (simp add: mount_def)
next
  case (playing_set st v now h)
  then show ?case by (simp add: setIsPlaying_def renderEffects_def pauseEffect_unstarted)
next
  case (rate_set st r)
  then show ?case by simp
next
  case (index_set st i)
  then show ?case by simp
next
  case (timer_run st h)
  then show ?case by simp
next
  case (timer_stopped st)
  then show ?case by simp
next
  case (effects_run st now h)
  then show ?case by (simp add: renderEffects_def pauseEffect_unstarted)
next
  case (finished st now)
  then show ?case by (simp add: handleFinish_state)
qed

text \<open>
  C4.  The claim: at session finalization the recorder reports \<open>wordsRead = cursor + 1\<close>
  and \<open>activeDurationSeconds = (finishTime - sessionStart - accumulatedPauseDuration) / 1000\<close>,
  floored at 0.  The code reports \<open>index + 1\<close> words, as claimed, and a duration of 0
  at every finalization it can reach, however long the session ran: the session start is
  recorded only by \<open>startReading\<close>, which nothing calls, so \<open>sessionStartTimeRef\<close> is
  still \<open>null\<close> and \<open>handleFinish\<close> takes the branch \<open>: 0\<close>.
\<close>

theorem handleFinish_reachable:
  assumes "reachable initialWpm st"
  shows "sessionStartTimeRef st = None \<and>
         snd (handleFinish st now) = (int (index st) + 1, 0, wpm st)"
proof -
  from assms have "sessionStartTimeRef st = None" using reachable_refs by blast
  then show ?thesis by (simp add: handleFinish_args truthy_def)
qed

text \<open>
  Two words at 600 words per minute: play is pressed at 1000, the timer advances to the
  second word, and the next timeout finalizes at 1200.  The reported duration is 0, not
  0.2 seconds.
\<close>

theorem handleFinish_reachable_witness:
  "timerEffect ((setIsPlaying True (mount 600) 1000 1)\<lparr>index := 1\<rparr>) 2 =
     \<lparr>index = 1, isPlaying = True, wpm = 600, sessionStartTimeRef = None,
        totalPauseDurationRef = 0, pauseStartTimeRef = None, timerRef = Some 2\<rparr> \<and>
   reachable 600
     \<lparr>index = 1, isPlaying = True, wpm = 600, sessionStartTimeRef = None,
        totalPauseDurationRef = 0, pauseStartTimeRef = None, timerRef = Some 2\<rparr> \<and>
   snd (handleFinish
     \<lparr>index = 1, isPlaying = True, wpm = 600, sessionStartTimeRef = None,
        totalPauseDurationRef = 0, pauseStartTimeRef = None, timerRef = Some 2\<rparr> 1200) =
     (2, 0, 600)"
proof -
  let ?S = "\<lparr>index = 1, isPlaying = True, wpm = 600, sessionStartTimeRef = None,
        totalPauseDurationRef = 0, pauseStartTimeRef = None, timerRef = Some (2::nat)\<rparr>"
  have e: "timerEffect ((setIsPlaying True (mount 600) 1000 1)\<lparr>index := 1\<rparr>) 2 = ?S"
    by (simp add: timerEffect_def setIsPlaying_def renderEffects_def pauseEffect_def mount_def
        stopTimer_def truthy_def Let_def)
  have "reachable 600 (timerEffect ((setIsPlaying True (mount 600) 1000 1)\<lparr>index := 1\<rparr>) 2)"
    by (intro reachable.timer_run reachable.index_set reachable.playing_set reachable.mounted)
  then have r: "reachable 600 ?S" by (simp only: e)
  from handleFinish_reachable [OF r, of 1200] e r show ?thesis by simp
qed




lemma isPlaying_renderEffects [simp]: "isPlaying (renderEffects st now h) = isPlaying st"
  by (simp add: renderEffects_def)



section \<open>Properties of the application\<close>

text \<open>
  C5.  A session record is appended to the statistics if and only if the duration is more
  than 10 seconds or more than 50 words were read.  When it is appended, the new
  \<open>sessions\<close> is the old sequence with the one new record at its end, \<open>totalWords\<close>
  and \<open>totalTimeSeconds\<close> grow by the record's \<open>wordsRead\<close> and
  \<open>durationSeconds\<close>, and the new statistics are stored; otherwise the statistics and
  the stored value are unchanged.
\<close>

theorem handleReadingFinish_significant:
  "(sessions (stats (handleReadingFinish app wr d w n1 n2)) \<noteq> sessions (stats app)
      \<longleftrightarrow> 10 < d \<or> 50 < wr) \<and>
   (10 < d \<or> 50 < wr \<longrightarrow>
      sessions (stats (handleReadingFinish app wr d w n1 n2)) =
        sessions (stats app) @
          [\<lparr>id_str = toString n1, date = n2, wordsRead = wr,
             durationSeconds = Math_round d, sessionWpm = w\<rparr>] \<and>
      totalWords (stats (handleReadingFinish app wr d w n1 n2)) = totalWords (stats app) + wr \<and>
      totalTimeSeconds (stats (handleReadingFinish app wr d w n1 n2)) =
        totalTimeSeconds (stats app) + Math_round d \<and>
      storage (handleReadingFinish app wr d w n1 n2) =
        Some (stats (handleReadingFinish app wr d w n1 n2))) \<and>
   (\<not> (10 < d \<or> 50 < wr) \<longrightarrow>
      stats (handleReadingFinish app wr d w n1 n2) = stats app \<and>
      storage (handleReadingFinish app wr d w n1 n2) = storage app)"
proof (cases "10 < d \<or> 50 < wr")
  case True
  then have "handleReadingFinish app wr d w n1 n2 =
      (saveStats (app\<lparr>lastWpm := w\<rparr>)
         \<lparr>totalWords = totalWords (stats app) + wr,
            totalTimeSeconds = totalTimeSeconds (stats app) + Math_round d,
            sessions = sessions (stats app) @
              [\<lparr>id_str = toString n1, date = n2, wordsRead = wr,
                 durationSeconds = Math_round d, sessionWpm = w\<rparr>]\<rparr>)\<lparr>appState := STATS\<rparr>"
    by (simp add: handleReadingFinish_def Let_def)
  with True show ?thesis by (simp add: saveStats_def)
next
  case False
  then have "handleReadingFinish app wr d w n1 n2 = app\<lparr>lastWpm := w, appState := STATS\<rparr>"
    by (simp add: handleReadingFinish_def Let_def)
  with False show ?thesis by simp
qed

theorem handleReadingFinish_significant_witness:
  "(10::rat) < 25 / 2 \<and>
   handleReadingFinish
     \<lparr>appState = READING,
        stats = \<lparr>totalWords = 100, totalTimeSeconds = 40, sessions = []\<rparr>,
        lastWpm = 300, storage = None\<rparr> 20 (25 / 2) 350 1000 1001 =
     \<lparr>appState = STATS,
        stats = \<lparr>totalWords = 120, totalTimeSeconds = 53,
                  sessions = [\<lparr>id_str = ''1000'', date = 1001, wordsRead = 20,
                                durationSeconds = 13, sessionWpm = 350\<rparr>]\<rparr>,
        lastWpm = 350,
        storage = Some \<lparr>totalWords = 120, totalTimeSeconds = 53,
                  sessions = [\<lparr>id_str = ''1000'', date = 1001, wordsRead = 20,
                                durationSeconds = 13, sessionWpm = 350\<rparr>]\<rparr>\<rparr> \<and>
   \<not> ((10::rat) < 3 \<or> (50::int) < 20) \<and>
   handleReadingFinish
     \<lparr>appState = READING,
        stats = \<lparr>totalWords = 100, totalTimeSeconds = 40, sessions = []\<rparr>,
        lastWpm = 300, storage = None\<rparr> 20 3 350 1000 1001 =
     \<lparr>appState = STATS,
        stats = \<lparr>totalWords = 100, totalTimeSeconds = 40, sessions = []\<rparr>,
        lastWpm = 350, storage = None\<rparr>"
proof -
  have t: "toString 1000 = ''1000''" by code_simp
  have m: "Math_round (25 / 2) = 13" by (simp add: Math_round_def)
  show ?thesis
    using handleReadingFinish_significant [of
        "\<lparr>appState = READING,
           stats = \<lparr>totalWords = 100, totalTimeSeconds = 40, sessions = []\<rparr>,
           lastWpm = 300, storage = None\<rparr>" 20 "25 / 2" 350 1000 1001]
      handleReadingFinish_significant [of
        "\<lparr>appState = READING,
           stats = \<lparr>totalWords = 100, totalTimeSeconds = 40, sessions = []\<rparr>,
           lastWpm = 300, storage = None\<rparr>" 20 3 350 1000 1001]
    by (simp add: handleReadingFinish_def saveStats_def Let_def t m)
qed

end
